theory Spec2Isabelle
  imports Main "HOL-Library.Multiset"
begin

section \<open>The host runtime: time values, calendar arithmetic, time zones\<close>

text \<open>
  \<^verbatim>\<open>scripts/archive-shows.ts\<close> runs under ts-node, that is on Node.js and V8. A
  \<^verbatim>\<open>Date\<close> holds a time value: the milliseconds since 1970-01-01T00:00:00Z. The time
  values met here (the system clock, show dates in the years 2020 to 2030) are far inside
  the range of 8.64e15 ms on which \<^verbatim>\<open>TimeClip\<close> is the identity and on which doubles are
  exact integers, so a valid time value is an \<open>int\<close> and an Invalid Date is \<open>None\<close>.
  The calendar functions are those of ECMA-262 (Day, DayFromYear, InLeapYear, MakeDay,
  YearFromTime, LocalTime, UTC).
\<close>

definition msPerDay :: int where
  "msPerDay = 1000 * 60 * 60 * 24"

definition Day :: "int \<Rightarrow> int" where
  "Day t = t div msPerDay"

definition DayFromYear :: "int \<Rightarrow> int" where
  "DayFromYear y =
     365 * (y - 1970) + (y - 1969) div 4 - (y - 1901) div 100 + (y - 1601) div 400"

definition InLeapYear :: "int \<Rightarrow> bool" where
  "InLeapYear y = (y mod 4 = 0 \<and> (0 < y mod 100 \<or> y mod 400 = 0))"

text \<open>Days of the year before the first of month \<open>m\<close> (0 is January).\<close>

definition daysBeforeMonth :: "bool \<Rightarrow> int \<Rightarrow> int" where
  "daysBeforeMonth leap m =
     [0, 31, 59, 90, 120, 151, 181, 212, 243, 273, 304, 334] ! nat m
       + (if leap \<and> 2 \<le> m then 1 else 0)"

text \<open>
  MakeDay: the day number of a year, a month (0 to 11 after the reduction) and a day of the
  month; a day of the month past the month's end runs into the next month.
\<close>

definition MakeDay :: "int \<Rightarrow> int \<Rightarrow> int \<Rightarrow> int" where
  "MakeDay year month dt =
     (let ym = year + month div 12; mn = month mod 12
      in DayFromYear ym + daysBeforeMonth (InLeapYear ym) mn + dt - 1)"

text \<open>
  YearFromTime, on day numbers: the largest year whose first day is not after the day. The
  estimate from the mean length of a year is off by at most one.
\<close>

definition YearFromDay :: "int \<Rightarrow> int" where
  "YearFromDay d =
     (let y0 = 1970 + (400 * d) div 146097
      in if DayFromYear (y0 + 1) \<le> d then y0 + 1
         else if DayFromYear y0 \<le> d then y0
         else y0 - 1)"

text \<open>
  The time zone of the process (the TZ of the machine) is an input of the script. A zone is
  the offset of local time from UTC in ms before its first transition, and its transitions
  in ascending order, each the UTC instant from which a new offset holds.
\<close>

record zone =
  initialOffset :: int
  transitions :: "(int \<times> int) list"

text \<open>LocalTZA(t, true): the offset in force at the UTC instant \<open>t\<close>.\<close>

fun offsetAtUTC :: "int \<Rightarrow> (int \<times> int) list \<Rightarrow> int \<Rightarrow> int" where
  "offsetAtUTC off [] t = off"
| "offsetAtUTC off ((u, off') # rest) t =
     (if t < u then off else offsetAtUTC off' rest t)"

text \<open>
  LocalTZA(t, false): the offset for a local time value. A local time that a transition
  skips or repeats is read with the offset before the transition.
\<close>

fun offsetAtLocal :: "int \<Rightarrow> (int \<times> int) list \<Rightarrow> int \<Rightarrow> int" where
  "offsetAtLocal off [] lt = off"
| "offsetAtLocal off ((u, off') # rest) lt =
     (if lt - max off off' < u then off else offsetAtLocal off' rest lt)"

definition LocalTime :: "zone \<Rightarrow> int \<Rightarrow> int" where
  "LocalTime z t = t + offsetAtUTC (initialOffset z) (transitions z) t"

definition UTC :: "zone \<Rightarrow> int \<Rightarrow> int" where
  "UTC z lt = lt - offsetAtLocal (initialOffset z) (transitions z) lt"

text \<open>\<^verbatim>\<open>d.getFullYear()\<close> and \<^verbatim>\<open>d.setHours(0, 0, 0, 0)\<close> on a valid date.\<close>

definition getFullYear :: "zone \<Rightarrow> int \<Rightarrow> int" where
  "getFullYear z t = YearFromDay (Day (LocalTime z t))"

definition setHours0 :: "zone \<Rightarrow> int \<Rightarrow> int" where
  "setHours0 z t = UTC z (Day (LocalTime z t) * msPerDay)"

text \<open>A zone without transitions, and UTC itself.\<close>

definition fixedZone :: "int \<Rightarrow> zone" where
  "fixedZone off = \<lparr>initialOffset = off, transitions = []\<rparr>"

definition utcZone :: zone where
  "utcZone = fixedZone 0"

text \<open>
  Europe/Amsterdam around the year 2025: central European time (UTC+1), summer time
  (UTC+2) from 2025-03-30T01:00:00Z to 2025-10-26T01:00:00Z.
\<close>

definition europeAmsterdam2025 :: zone where
  "europeAmsterdam2025 =
     \<lparr>initialOffset = 3600000,
      transitions = [(1743296400000, 7200000), (1761440400000, 3600000)]\<rparr>"

section \<open>Strings\<close>

text \<open>
  Strings are lists of code units below 256, which is what \<open>char\<close> holds. The
  pattern's classes on them: \<^verbatim>\<open>[A-Za-z]\<close>, \<^verbatim>\<open>\d\<close>, and \<^verbatim>\<open>\s\<close> (tab, line feed, vertical tab,
  form feed, carriage return, space, no-break space).
\<close>

definition isAsciiLetter :: "char \<Rightarrow> bool" where
  "isAsciiLetter c =
     (let n = (of_char c :: nat) in (65 \<le> n \<and> n \<le> 90) \<or> (97 \<le> n \<and> n \<le> 122))"

definition isDigit :: "char \<Rightarrow> bool" where
  "isDigit c = (let n = (of_char c :: nat) in 48 \<le> n \<and> n \<le> 57)"

definition isJsSpace :: "char \<Rightarrow> bool" where
  "isJsSpace c = (let n = (of_char c :: nat) in (9 \<le> n \<and> n \<le> 13) \<or> n = 32 \<or> n = 160)"

text \<open>AsciiAlphaToLower, \<^verbatim>\<open>c | 0x20\<close>: on a letter, its lower case.\<close>

fun asciiToLower :: "char \<Rightarrow> char" where
  "asciiToLower (Char b0 b1 b2 b3 b4 b5 b6 b7) = Char b0 b1 b2 b3 b4 True b6 b7"

definition digitValue :: "char \<Rightarrow> int" where
  "digitValue c = of_char c - 48"

text \<open>The value of a run of decimal digits (ReadUnsignedNumeral).\<close>

definition readUnsignedNumeral :: "string \<Rightarrow> int" where
  "readUnsignedNumeral ds = foldl (\<lambda>n c. 10 * n + digitValue c) 0 ds"

text \<open>Number to string, for the integers that the templates print.\<close>

text \<open>The character of a decimal digit, \<open>n\<close> below ten.\<close>

definition digitChar :: "nat \<Rightarrow> char" where
  "digitChar n = ''0123456789'' ! n"

function natToString :: "nat \<Rightarrow> string" where
  "natToString n =
     (if n < 10 then [digitChar n]
      else natToString (n div 10) @ [digitChar (n mod 10)])"
  by pat_completeness auto
termination
  by (relation "measure id") auto

definition numToString :: "int \<Rightarrow> string" where
  "numToString i = (if i < 0 then ''-'' @ natToString (nat (- i)) else natToString (nat i))"

text \<open>\<^verbatim>\<open>errors.join(', ')\<close>\<close>

fun joinComma :: "string list \<Rightarrow> string" where
  "joinComma [] = []"
| "joinComma [e] = e"
| "joinComma (e # es) = e @ '', '' @ joinComma es"

definition dq :: string where
  "dq = [CHR 0x22]"

section \<open>Date parsing and validation\<close>

text \<open>
  \<^verbatim>\<open>/^[A-Za-z]{3}\s+\d{1,2},\s+\d{4}$/\<close>. The classes of adjacent parts are disjoint, so a
  string matches in at most one way; \<open>splitFormat\<close> returns the letters, the day digits and
  the year digits of the match.
\<close>

definition splitFormat :: "string \<Rightarrow> (string \<times> string \<times> string) option" where
  "splitFormat s =
     (let w = take 3 s; r1 = drop 3 s;
          ws1 = takeWhile isJsSpace r1; r2 = dropWhile isJsSpace r1;
          d = takeWhile isDigit r2; r3 = dropWhile isDigit r2
      in if length w = 3 \<and> list_all isAsciiLetter w \<and> ws1 \<noteq> []
            \<and> (length d = 1 \<or> length d = 2)
         then (case r3 of
                 [] \<Rightarrow> None
               | c # r4 \<Rightarrow>
                  (let ws2 = takeWhile isJsSpace r4; y = dropWhile isJsSpace r4
                   in if c = CHR '','' \<and> ws2 \<noteq> [] \<and> length y = 4 \<and> list_all isDigit y
                      then Some (w, d, y) else None))
         else None)"

definition formatRegex_test :: "string \<Rightarrow> bool" where
  "formatRegex_test s = (splitFormat s \<noteq> None)"

text \<open>
  \<^verbatim>\<open>new Date(dateString)\<close> on a string that is not in the ISO format is left to the
  engine by ECMA-262; this is V8's legacy date parser, on the strings the script hands to it,
  those that match the pattern. There the tokens are a word of three letters, white space, a
  number, a comma, white space and a number. A word whose lower-case letters are a month's
  first three is the named month; any other word before the first number is skipped (so are
  white space and the comma); both numbers are date components.
\<close>

definition monthNames :: "(string \<times> int) list" where
  "monthNames =
     [(''jan'', 1), (''feb'', 2), (''mar'', 3), (''apr'', 4), (''may'', 5), (''jun'', 6),
      (''jul'', 7), (''aug'', 8), (''sep'', 9), (''oct'', 10), (''nov'', 11), (''dec'', 12)]"

definition namedMonth :: "string \<Rightarrow> int option" where
  "namedMonth w = map_of monthNames (map asciiToLower w)"

definition isDay :: "int \<Rightarrow> bool" where
  "isDay x = (1 \<le> x \<and> x \<le> 31)"

definition isMonth :: "int \<Rightarrow> bool" where
  "isMonth x = (1 \<le> x \<and> x \<le> 12)"

text \<open>
  DayComposer::Write with two components read, \<open>c0\<close> and \<open>c1\<close>; the third defaults to 1.
  With a named month a first component that is no day of a month is the year. Without one
  the order is year, month, day when the first component is no day, and month, day, year
  otherwise. A year from 0 to 49 is in 2000 to 2049, one from 50 to 99 in 1950 to 1999. The
  result is the year, the month from 0 and the day, or nothing when the month or the day
  is out of range.
\<close>

definition dayComposerWrite :: "int option \<Rightarrow> int \<Rightarrow> int \<Rightarrow> (int \<times> int \<times> int) option" where
  "dayComposerWrite named c0 c1 =
     (let c2 = 1;
          (year, month, day) =
             (case named of
                None \<Rightarrow> (if \<not> isDay c0 then (c0, c1, c2) else (c2, c0, c1))
              | Some m \<Rightarrow> (if \<not> isDay c0 then (c0, m, c1) else (c1, m, c0)));
          year' = (if 0 \<le> year \<and> year \<le> 49 then year + 2000
                   else if 50 \<le> year \<and> year \<le> 99 then year + 1900
                   else year)
      in if isMonth month \<and> isDay day then Some (year', month - 1, day) else None)"

text \<open>The date fields that the parser reads from the parts of a string in the pattern.\<close>

fun legacyFields ::
  "(string \<times> string \<times> string) option \<Rightarrow> (int \<times> int \<times> int) option" where
  "legacyFields None = None"
| "legacyFields (Some (w, d, y)) =
     dayComposerWrite (namedMonth w) (readUnsignedNumeral d) (readUnsignedNumeral y)"

text \<open>The time value: midnight of that day in local time, converted to UTC.\<close>

fun timeOfFields :: "zone \<Rightarrow> (int \<times> int \<times> int) option \<Rightarrow> int option" where
  "timeOfFields z None = None"
| "timeOfFields z (Some (year, month, day)) =
     Some (UTC z (MakeDay year month day * msPerDay))"

text \<open>
  The constructor on a string; \<open>None\<close> is the Invalid Date. On a string outside the
  pattern the script does not call it, and it is not modelled there.
\<close>

definition newDate :: "zone \<Rightarrow> string \<Rightarrow> int option" where
  "newDate z s = timeOfFields z (legacyFields (splitFormat s))"

text \<open>
  In \<^verbatim>\<open>parseShowDate\<close>, \<open>parsed = None\<close> is \<^verbatim>\<open>isNaN(parsed.getTime())\<close>; past that test
  the date is valid and \<open>the parsed\<close> is its time value.
\<close>

record DateParseResult =
  success :: bool
  date :: "int option"
  original :: string
  errors :: "string list"

definition parseShowDate :: "zone \<Rightarrow> string \<Rightarrow> DateParseResult" where
  "parseShowDate z dateString =
     (if \<not> formatRegex_test dateString then
        \<lparr>success = False, date = None, original = dateString,
         errors = [''Invalid format: '' @ dq @ dateString @ dq @ '' (expected: '' @ dq
                     @ ''MMM D, YYYY'' @ dq @ '')'']\<rparr>
      else
        (let parsed = newDate z dateString
         in if parsed = None then
              \<lparr>success = False, date = None, original = dateString,
               errors = [''Could not parse: '' @ dq @ dateString @ dq]\<rparr>
            else
              (let year = getFullYear z (the parsed)
               in if year < 2020 \<or> year > 2030 then
                    \<lparr>success = False, date = None, original = dateString,
                     errors = [''Unreasonable year: '' @ numToString year @ '' in '' @ dq
                                 @ dateString @ dq]\<rparr>
                  else
                    \<lparr>success = True, date = parsed, original = dateString,
                     errors = []\<rparr>)))"

section \<open>The archive decision\<close>

record ArchiveDecision =
  shouldArchive :: bool
  reason :: string
  showDate :: "int option"
  daysAgo :: int

text \<open>
  \<open>referenceDate\<close> is the time value of a valid date (the caller passes \<^verbatim>\<open>new Date()\<close>).
  \<^verbatim>\<open>parseResult.date!\<close> is \<open>the (date parseResult)\<close>: after a successful parse the date is
  not null.
  \<^verbatim>\<open>Math.floor(timeDiff / (1000 * 60 * 60 * 24))\<close> is \<open>div\<close> on integers.
\<close>

definition shouldArchiveShow :: "zone \<Rightarrow> string \<Rightarrow> int \<Rightarrow> ArchiveDecision" where
  "shouldArchiveShow z showDateString referenceDate =
     (let parseResult = parseShowDate z showDateString
      in if \<not> success parseResult then
           \<lparr>shouldArchive = False,
            reason = ''Could not parse date safely: '' @ joinComma (errors parseResult),
            showDate = None, daysAgo = 0\<rparr>
         else
             (let today = setHours0 z referenceDate;
                  showDate = setHours0 z (the (date parseResult));
                  timeDiff = today - showDate;
                  daysAgo = timeDiff div (1000 * 60 * 60 * 24)
              in if showDate < today then
                   \<lparr>shouldArchive = True,
                    reason = ''Show was '' @ numToString daysAgo @ '' day(s) ago'',
                    showDate = Some showDate, daysAgo = daysAgo\<rparr>
                 else if showDate = today then
                   \<lparr>shouldArchive = False,
                    reason = ''Show is today (keeping in upcoming)'',
                    showDate = Some showDate, daysAgo = 0\<rparr>
                 else
                   \<lparr>shouldArchive = False,
                    reason = ''Show is '' @ numToString \<bar>daysAgo\<bar> @ '' day(s) in the future'',
                    showDate = Some showDate, daysAgo = daysAgo\<rparr>))"

section \<open>Shows documents\<close>

text \<open>
  A show has its known fields and, under \<^verbatim>\<open>[key: string]: unknown\<close>, any others: \<open>extra\<close>
  holds them, with values of a type the script never looks into. Where two records have a
  field of the same name, the field is written with its record: \<open>Show.date\<close>,
  \<open>DateParseResult.date\<close>.
\<close>

datatype status = Tickets | SoldOut

record 'x Show =
  date :: string
  time :: string
  venue :: string
  city :: string
  status :: status
  ticketUrl :: "string option"
  extra :: "(string \<times> 'x) list"

record ShowSettings =
  showPastShows :: bool
  maxUpcomingDisplay :: int
  maxPastDisplay :: int
  autoArchiveAfterDays :: int

record 'x ShowsData =
  upcoming :: "'x Show list"
  past :: "'x Show list"
  settings :: ShowSettings

record ArchivedShow =
  date :: string
  venue :: string
  city :: string
  daysAgo :: int

text \<open>
  The warnings of the sanity checks are strings built from a template; a warning is kept
  as its template and the values put into it:
  \<^item> \<open>AllArchived\<close>: All upcoming shows would be archived. This seems unusual.
  \<^item> \<open>TooMany n\<close>: \<open>n\<close> shows would be archived. This seems high.
  \<^item> \<open>FutureArchived d n\<close>: Future show would be archived: \<open>d\<close> (\<open>n\<close> days ahead)
  \<^item> \<open>TodayArchived d\<close>: Today's show would be archived: \<open>d\<close>. This may not be desired.
\<close>

datatype warning =
  AllArchived
  | TooMany nat
  | FutureArchived string int
  | TodayArchived string

record ArchiveResult =
  siteName :: string
  filePath :: string
  originalUpcoming :: nat
  originalPast :: nat
  archived :: nat
  remaining :: nat
  totalPast :: nat
  archivedShows :: "ArchivedShow list"
  errors :: "string list"
  warnings :: "warning list"

section \<open>Files\<close>

text \<open>
  A file system maps a path to the content of the file there. The script reads a file
  through \<^verbatim>\<open>JSON.parse\<close> and \<^verbatim>\<open>validateShowsStructure\<close> only, so a content is one of:
  the JSON text of a document with the structure that the validation accepts, the JSON
  text of another value, or text that is not JSON. The document was read with
  \<^verbatim>\<open>JSON.parse\<close>, so \<^verbatim>\<open>JSON.stringify\<close> writes a text that parses to it again.
\<close>

datatype 'x content = Document "'x ShowsData" | OtherJson | NotJson

type_synonym 'x fs = "string \<rightharpoonup> 'x content"

datatype error = ENOENT | SyntaxError | InvalidStructure | IOError

text \<open>
  The step of the write that fails, if one does: writing the temporary file (leaving a
  truncated file behind or not), reading it back as JSON, copying the target to the
  \<^verbatim>\<open>.backup\<close> path, renaming, removing the \<^verbatim>\<open>.backup\<close> file. A failed copy, rename or unlink
  changes nothing. The calls in the \<^verbatim>\<open>catch\<close> block succeed.
\<close>

datatype fault =
  NoFault
  | FailWriteTmp bool
  | FailReadBack
  | FailCopyBackup
  | FailRename
  | FailUnlinkBackup

text \<open>How the promise that an \<^verbatim>\<open>async\<close> function returns is settled.\<close>

datatype outcome = Fulfilled | Rejected error

text \<open>
  The \<^verbatim>\<open>try\<close> block of \<^verbatim>\<open>writeShowsFile\<close>: the files when it ends, and what it threw.
\<close>

definition tryWrite ::
  "fault \<Rightarrow> string \<Rightarrow> string \<Rightarrow> string \<Rightarrow> 'x ShowsData \<Rightarrow> 'x fs \<Rightarrow> 'x fs \<times> error option" where
  "tryWrite flt path tmpPath backupPath data fs =
     (case flt of
        FailWriteTmp partial \<Rightarrow>
          ((if partial then fs(tmpPath \<mapsto> NotJson) else fs), Some IOError)
      | _ \<Rightarrow>
          (let fs1 = fs(tmpPath \<mapsto> Document data)
           in if flt = FailReadBack then (fs1(tmpPath \<mapsto> NotJson), Some SyntaxError)
              else if fs1 path \<noteq> None \<and> flt = FailCopyBackup then (fs1, Some IOError)
              else
                (let fs2 = (if fs1 path \<noteq> None then fs1(backupPath := fs1 path)
                            else fs1)
                 in if flt = FailRename then (fs2, Some IOError)
                    else
                      (let fs3 = (fs2(path := fs2 tmpPath))(tmpPath := None)
                       in if fs3 backupPath \<noteq> None \<and> flt = FailUnlinkBackup
                          then (fs3, Some IOError)
                          else ((if fs3 backupPath \<noteq> None then fs3(backupPath := None)
                                 else fs3), None)))))"

text \<open>
  \<^verbatim>\<open>writeShowsFile\<close> has no \<^verbatim>\<open>await\<close>: its body runs to the end within the call, and the
  promise it returns is fulfilled, or rejected with what the \<^verbatim>\<open>catch\<close> block threw again.
\<close>

definition writeShowsFile ::
  "fault \<Rightarrow> string \<Rightarrow> 'x ShowsData \<Rightarrow> 'x fs \<Rightarrow> 'x fs \<times> outcome" where
  "writeShowsFile flt path data fs =
     (let tmpPath = path @ ''.tmp'';
          backupPath = path @ ''.backup'';
          (fsT, thrown) = tryWrite flt path tmpPath backupPath data fs
      in case thrown of
           None \<Rightarrow> (fsT, Fulfilled)
         | Some err \<Rightarrow>
             (let fsC = (if fsT tmpPath \<noteq> None then fsT(tmpPath := None) else fsT);
                  fsR = (if fsC backupPath \<noteq> None
                         then (fsC(path := fsC backupPath))(backupPath := None)
                         else fsC)
              in (fsR, Rejected err)))"

section \<open>Archive logic\<close>

definition performSanityChecks :: "ArchiveResult \<Rightarrow> warning list" where
  "performSanityChecks result =
     (if remaining result = 0 \<and> archived result > 0 then [AllArchived] else [])
     @ (if archived result > 10 then [TooMany (archived result)] else [])
     @ concat (map (\<lambda>sh. if ArchivedShow.daysAgo sh < 0
                           then [FutureArchived (ArchivedShow.date sh) \<bar>ArchivedShow.daysAgo sh\<bar>]
                           else [])
                 (archivedShows result))
     @ concat (map (\<lambda>sh. if ArchivedShow.daysAgo sh = 0
                           then [TodayArchived (ArchivedShow.date sh)]
                           else [])
                 (archivedShows result))"

text \<open>The loop over \<^verbatim>\<open>data.upcoming\<close>, pushing each show to one of the two arrays.\<close>

fun partitionShows ::
  "zone \<Rightarrow> int \<Rightarrow> 'x Show list \<Rightarrow> 'x Show list \<Rightarrow> 'x Show list
     \<Rightarrow> 'x Show list \<times> 'x Show list" where
  "partitionShows z today [] toArchive toKeep = (toArchive, toKeep)"
| "partitionShows z today (sh # rest) toArchive toKeep =
     (let decision = shouldArchiveShow z (Show.date sh) today
      in if shouldArchive decision
         then partitionShows z today rest (toArchive @ [sh]) toKeep
         else partitionShows z today rest toArchive (toKeep @ [sh]))"

definition archivedShowOf :: "zone \<Rightarrow> int \<Rightarrow> 'x Show \<Rightarrow> ArchivedShow" where
  "archivedShowOf z today sh =
     (let decision = shouldArchiveShow z (Show.date sh) today
      in \<lparr>ArchivedShow.date = Show.date sh, venue = Show.venue sh, city = Show.city sh,
          daysAgo = ArchiveDecision.daysAgo decision\<rparr>)"

text \<open>
  \<open>now\<close> is the clock (\<^verbatim>\<open>new Date()\<close>). The call of \<^verbatim>\<open>writeShowsFile\<close> is not awaited
  and its promise is dropped: the files are as the call left them, and a rejection does not
  reach the caller. What \<^verbatim>\<open>archiveShows\<close> throws is the left of the sum.
\<close>

definition archiveShows ::
  "zone \<Rightarrow> int \<Rightarrow> fault \<Rightarrow> string \<Rightarrow> string \<Rightarrow> string \<Rightarrow> bool \<Rightarrow> 'x fs
     \<Rightarrow> error + (ArchiveResult \<times> 'x fs)" where
  "archiveShows z now flt site path backupDir dryRun fs =
     (let today = now
      in case fs path of
           None \<Rightarrow> Inl ENOENT
         | Some NotJson \<Rightarrow> Inl SyntaxError
         | Some OtherJson \<Rightarrow> Inl InvalidStructure
         | Some (Document data) \<Rightarrow>
             (let (toArchive, toKeep) = partitionShows z today (upcoming data) [] [];
                  result0 =
                    \<lparr>siteName = site, filePath = path,
                     originalUpcoming = length (upcoming data),
                     originalPast = length (past data),
                     archived = length toArchive, remaining = length toKeep,
                     totalPast = length (past data) + length toArchive,
                     archivedShows = map (archivedShowOf z today) toArchive,
                     errors = [], warnings = []\<rparr>;
                  result = result0\<lparr>warnings := performSanityChecks result0\<rparr>
              in if \<not> dryRun \<and> length toArchive > 0 then
                   (let newPast = rev toArchive @ past data;
                        newData = \<lparr>upcoming = toKeep, past = newPast,
                                   settings = settings data\<rparr>;
                        (fs', settled) = writeShowsFile flt path newData fs
                    in Inr (result, fs'))
                 else Inr (result, fs)))"

text \<open>Whether the loop of \<^verbatim>\<open>archiveShows\<close> puts a show into \<^verbatim>\<open>toArchive\<close>.\<close>

abbreviation archivable :: "zone \<Rightarrow> int \<Rightarrow> 'x Show \<Rightarrow> bool" where
  "archivable z today sh \<equiv> shouldArchive (shouldArchiveShow z (Show.date sh) today)"

section \<open>Example documents\<close>

text \<open>
  The reference instant of the examples is 2025-12-06T10:00:00Z. \<open>doc3\<close> is the document
  of the scenario with shows on Dec 4, Dec 6 and Dec 11, and one past show.
\<close>

definition refDec6 :: int where
  "refDec6 = 1765015200000"

definition mkShow :: "string \<Rightarrow> string \<Rightarrow> unit Show" where
  "mkShow d v =
     \<lparr>Show.date = d, time = ''20:00'', venue = v, city = ''Amsterdam'', status = Tickets,
      ticketUrl = None, extra = []\<rparr>"

definition defaultSettings :: ShowSettings where
  "defaultSettings =
     \<lparr>showPastShows = True, maxUpcomingDisplay = 10, maxPastDisplay = 5,
      autoArchiveAfterDays = 1\<rparr>"

definition doc3 :: "unit ShowsData" where
  "doc3 =
     \<lparr>upcoming = [mkShow ''Dec 4, 2025'' ''Paradiso'', mkShow ''Dec 6, 2025'' ''Melkweg'',
                  mkShow ''Dec 11, 2025'' ''Vera''],
      past = [mkShow ''Nov 1, 2025'' ''Doornroosje''],
      settings = defaultSettings\<rparr>"

definition fs3 :: "unit fs" where
  "fs3 = Map.empty(''shows.json'' \<mapsto> Document doc3)"

text \<open>\<open>doc3\<close> after the show of Dec 4 has been archived.\<close>

definition doc3Archived :: "unit ShowsData" where
  "doc3Archived =
     \<lparr>upcoming = [mkShow ''Dec 6, 2025'' ''Melkweg'', mkShow ''Dec 11, 2025'' ''Vera''],
      past = [mkShow ''Dec 4, 2025'' ''Paradiso'', mkShow ''Nov 1, 2025'' ''Doornroosje''],
      settings = defaultSettings\<rparr>"

text \<open>
  An older state of the file of \<open>doc3\<close>, with one upcoming show and other settings, and
  the files when a run that was interrupted between the copy to the \<^verbatim>\<open>.backup\<close> path and
  its removal has left that state at \<^verbatim>\<open>shows.json.backup\<close>, and \<^verbatim>\<open>shows.json\<close> has since
  become \<open>doc3\<close>.
\<close>

definition docStale :: "unit ShowsData" where
  "docStale =
     \<lparr>upcoming = [mkShow ''Nov 1, 2025'' ''Doornroosje''], past = [],
      settings = \<lparr>showPastShows = False, maxUpcomingDisplay = 6, maxPastDisplay = 3,
                  autoArchiveAfterDays = 1\<rparr>\<rparr>"

definition fsStale :: "unit fs" where
  "fsStale =
     Map.empty(''shows.json'' \<mapsto> Document doc3, ''shows.json.backup'' \<mapsto> Document docStale)"

text \<open>A show that differs from those of \<open>mkShow\<close> in every field but the date.\<close>

definition otherShow :: "string \<Rightarrow> bool Show" where
  "otherShow d =
     \<lparr>Show.date = d, time = ''21:30'', venue = ''Vera'', city = ''Groningen'',
      status = SoldOut, ticketUrl = Some ''https://tickets.example/vera'',
      extra = [(''supportAct'', True)]\<rparr>"

text \<open>An earlier reference instant, 2025-12-01T10:00:00Z, before every show of \<open>doc3\<close>.\<close>

definition refDec1 :: int where
  "refDec1 = 1764583200000"

text \<open>Fifteen upcoming shows, twelve of them before 2025-12-06.\<close>

definition doc15 :: "unit ShowsData" where
  "doc15 =
     \<lparr>upcoming = map (\<lambda>d. mkShow d ''Paradiso'')
         [''Jan 10, 2025'', ''Feb 14, 2025'', ''Mar 30, 2025'', ''Apr 5, 2025'',
          ''May 17, 2025'', ''Jun 21, 2025'', ''Jul 4, 2025'', ''Aug 9, 2025'',
          ''Sep 13, 2025'', ''Oct 27, 2025'', ''Nov 8, 2025'', ''Dec 5, 2025'',
          ''Dec 6, 2025'', ''Dec 11, 2025'', ''Dec 20, 2025''],
      past = [], settings = defaultSettings\<rparr>"

definition fs15 :: "unit fs" where
  "fs15 = Map.empty(''shows.json'' \<mapsto> Document doc15)"

text \<open>
  Two shows around the start of summer time in 2025, and the reference instant
  2025-03-31T10:00:00Z, the day after the first of them.
\<close>

definition docMarch :: "unit ShowsData" where
  "docMarch =
     \<lparr>upcoming = [mkShow ''Mar 30, 2025'' ''Paradiso'', mkShow ''Apr 5, 2025'' ''Melkweg''],
      past = [], settings = defaultSettings\<rparr>"

definition fsMarch :: "unit fs" where
  "fsMarch = Map.empty(''shows.json'' \<mapsto> Document docMarch)"

definition refMar31 :: int where
  "refMar31 = 1743415200000"

section \<open>Calendar arithmetic\<close>

lemma div_bounds:
  fixes x k :: int
  assumes "0 < k"
  shows "k * (x div k) \<le> x" "x < k * (x div k) + k"
proof -
  have e: "x = k * (x div k) + x mod k"
    by simp
  have "0 \<le> x mod k" "x mod k < k"
    using assms by simp_all
  then show "k * (x div k) \<le> x" "x < k * (x div k) + k"
    using e by linarith+
qed

text \<open>The first day of a year is within two days of 365.2425 days a year.\<close>

lemma DayFromYear_bounds:
  "146097 * (y - 1970) - 506 \<le> 400 * DayFromYear y"
  "400 * DayFromYear y \<le> 146097 * (y - 1970) + 589"
proof -
  define a where "a = (y - 1969) div 4"
  define b where "b = (y - 1901) div 100"
  define c where "c = (y - 1601) div 400"
  have a: "4 * a \<le> y - 1969" "y - 1969 < 4 * a + 4"
    unfolding a_def by (rule div_bounds, simp)+
  have b: "100 * b \<le> y - 1901" "y - 1901 < 100 * b + 100"
    unfolding b_def by (rule div_bounds, simp)+
  have c: "400 * c \<le> y - 1601" "y - 1601 < 400 * c + 400"
    unfolding c_def by (rule div_bounds, simp)+
  have e: "400 * DayFromYear y = 146000 * (y - 1970) + 400 * a - 400 * b + 400 * c"
    by (simp add: DayFromYear_def a_def b_def c_def)
  have a1: "100 * y - 197200 \<le> 400 * a" "400 * a \<le> 100 * y - 196900"
    using a by simp_all
  have b1: "4 * y - 8000 \<le> 400 * b" "400 * b \<le> 4 * y - 7604"
    using b by simp_all
  have c1: "y - 2000 \<le> 400 * c" "400 * c \<le> y - 1601"
    using c by simp_all
  have f: "146000 * (y - 1970) = 146000 * y - 287620000"
    "146097 * (y - 1970) = 146097 * y - 287811090"
    by simp_all
  show "146097 * (y - 1970) - 506 \<le> 400 * DayFromYear y"
    unfolding e f using a1 b1 c1 by linarith
  show "400 * DayFromYear y \<le> 146097 * (y - 1970) + 589"
    unfolding e f using a1 b1 c1 by linarith
qed

text \<open>\<open>YearFromDay\<close> is YearFromTime: the year that the day falls in.\<close>

lemma YearFromDay_correct:
  "DayFromYear (YearFromDay d) \<le> d" "d < DayFromYear (YearFromDay d + 1)"
proof -
  define q where "q = (400 * d) div 146097"
  have q: "146097 * q \<le> 400 * d" "400 * d < 146097 * q + 146097"
    unfolding q_def by (rule div_bounds, simp)+
  have "146097 * q + 291688 \<le> 400 * DayFromYear (1970 + q + 2)"
    using DayFromYear_bounds(1) [of "1970 + q + 2"] by simp
  then have up: "d < DayFromYear (1970 + q + 2)"
    using q by linarith
  have "400 * DayFromYear (1970 + q - 1) \<le> 146097 * q - 145508"
    using DayFromYear_bounds(2) [of "1970 + q - 1"] by simp
  then have lo: "DayFromYear (1970 + q - 1) \<le> d"
    using q by linarith
  have y: "YearFromDay d =
     (if DayFromYear (1970 + q + 1) \<le> d then 1970 + q + 1
      else if DayFromYear (1970 + q) \<le> d then 1970 + q else 1970 + q - 1)"
    by (simp add: YearFromDay_def q_def Let_def)
  show "DayFromYear (YearFromDay d) \<le> d"
    using lo by (simp add: y)
  have s: "1970 + q + 1 + 1 = 1970 + q + 2" "1970 + q - 1 + 1 = 1970 + q"
    by simp_all
  show "d < DayFromYear (YearFromDay d + 1)"
    using up unfolding y by (simp only: s split: if_splits) auto
qed

section \<open>The decision engine\<close>

lemma parse_success_date:
  "success (parseShowDate z s) \<Longrightarrow>
     \<exists>t. DateParseResult.date (parseShowDate z s) = Some t \<and> newDate z s = Some t"
  by (auto simp: parseShowDate_def Let_def split: if_splits)


text \<open>The three branches after a successful parse, and the branch after a failed one.\<close>

lemma shouldArchiveShow_success:
  assumes "success (parseShowDate z s)" "DateParseResult.date (parseShowDate z s) = Some t"
  shows "shouldArchiveShow z s ref =
     (let today = setHours0 z ref; sd = setHours0 z t; n = (today - sd) div 86400000
      in if sd < today then
           \<lparr>shouldArchive = True, reason = ''Show was '' @ numToString n @ '' day(s) ago'',
            showDate = Some sd, daysAgo = n\<rparr>
         else if sd = today then
           \<lparr>shouldArchive = False, reason = ''Show is today (keeping in upcoming)'',
            showDate = Some sd, daysAgo = 0\<rparr>
         else
           \<lparr>shouldArchive = False,
            reason = ''Show is '' @ numToString \<bar>n\<bar> @ '' day(s) in the future'',
            showDate = Some sd, daysAgo = n\<rparr>)"
  using assms by (simp add: shouldArchiveShow_def Let_def)

lemma shouldArchiveShow_failure:
  assumes "\<not> success (parseShowDate z s)"
  shows "shouldArchiveShow z s ref =
     \<lparr>shouldArchive = False,
      reason = ''Could not parse date safely: ''
                 @ joinComma (DateParseResult.errors (parseShowDate z s)),
      showDate = None, daysAgo = 0\<rparr>"
  using assms by (simp add: shouldArchiveShow_def Let_def)

text \<open>
  C1. For a date string that parses, the decision is to archive exactly when the show
  date at midnight is strictly before the reference date at midnight. A show date equal to
  the reference date is kept, and so is a later one.
\<close>

theorem shouldArchive_iff_strictly_before:
  assumes "success (parseShowDate z s)"
  shows "\<exists>t. DateParseResult.date (parseShowDate z s) = Some t
           \<and> showDate (shouldArchiveShow z s ref) = Some (setHours0 z t)
           \<and> (shouldArchive (shouldArchiveShow z s ref) \<longleftrightarrow> setHours0 z t < setHours0 z ref)
           \<and> (setHours0 z t = setHours0 z ref \<longrightarrow> \<not> shouldArchive (shouldArchiveShow z s ref))
           \<and> (setHours0 z ref < setHours0 z t \<longrightarrow> \<not> shouldArchive (shouldArchiveShow z s ref))"
proof -
  from assms obtain t where t: "DateParseResult.date (parseShowDate z s) = Some t"
    using parse_success_date by blast
  show ?thesis
    using t by (auto simp: shouldArchiveShow_success [OF assms t] Let_def)
qed

theorem shouldArchive_iff_strictly_before_witness:
  "success (parseShowDate utcZone ''Dec 4, 2025'')
   \<and> shouldArchive (shouldArchiveShow utcZone ''Dec 4, 2025'' 1765015200000)
   \<and> success (parseShowDate utcZone ''Dec 6, 2025'')
   \<and> \<not> shouldArchive (shouldArchiveShow utcZone ''Dec 6, 2025'' 1765015200000)"
proof -
  have h4: "success (parseShowDate utcZone ''Dec 4, 2025'')"
    by code_simp
  have d4: "DateParseResult.date (parseShowDate utcZone ''Dec 4, 2025'') = Some 1764806400000"
    by code_simp
  have n4: "setHours0 utcZone 1764806400000 < setHours0 utcZone 1765015200000"
    by code_simp
  have h6: "success (parseShowDate utcZone ''Dec 6, 2025'')"
    by code_simp
  have d6: "DateParseResult.date (parseShowDate utcZone ''Dec 6, 2025'') = Some 1764979200000"
    by code_simp
  have n6: "setHours0 utcZone 1764979200000 = setHours0 utcZone 1765015200000"
    by code_simp
  from shouldArchive_iff_strictly_before [OF h4, of 1765015200000] d4 n4
  have a: "shouldArchive (shouldArchiveShow utcZone ''Dec 4, 2025'' 1765015200000)"
    by auto
  from shouldArchive_iff_strictly_before [OF h6, of 1765015200000] d6 n6
  have b: "\<not> shouldArchive (shouldArchiveShow utcZone ''Dec 6, 2025'' 1765015200000)"
    by auto
  from h4 a h6 b show ?thesis by simp
qed

text \<open>
  In a zone without transitions the reference date is compared with the show date as
  calendar days of local time, and \<open>daysAgo\<close> is their difference in days.
\<close>

lemma setHours0_fixedZone: "setHours0 (fixedZone off) t = Day (t + off) * msPerDay - off"
  by (simp add: setHours0_def fixedZone_def UTC_def LocalTime_def)

lemma daysAgo_fixedZone:
  assumes "success (parseShowDate (fixedZone off) s)"
    and "DateParseResult.date (parseShowDate (fixedZone off) s) = Some t"
  shows "ArchiveDecision.daysAgo (shouldArchiveShow (fixedZone off) s ref)
           = Day (ref + off) - Day (t + off)"
    and "shouldArchive (shouldArchiveShow (fixedZone off) s ref)
           \<longleftrightarrow> Day (t + off) < Day (ref + off)"
proof -
  have m: "(Day (ref + off) * msPerDay - off - (Day (t + off) * msPerDay - off)) div 86400000
             = Day (ref + off) - Day (t + off)"
    by (simp add: msPerDay_def algebra_simps flip: right_diff_distrib)
  show "ArchiveDecision.daysAgo (shouldArchiveShow (fixedZone off) s ref)
          = Day (ref + off) - Day (t + off)"
    using m
    by (auto simp: shouldArchiveShow_success [OF assms] Let_def setHours0_fixedZone msPerDay_def)
  show "shouldArchive (shouldArchiveShow (fixedZone off) s ref)
          \<longleftrightarrow> Day (t + off) < Day (ref + off)"
    by (auto simp: shouldArchiveShow_success [OF assms] Let_def setHours0_fixedZone msPerDay_def)
qed

text \<open>The loop of \<^verbatim>\<open>archiveShows\<close> is a pair of filters that keep the order.\<close>

lemma partitionShows_filter:
  "partitionShows z t xs A K =
     (A @ filter (archivable z t) xs, K @ filter (\<lambda>sh. \<not> archivable z t sh) xs)"
  by (induction xs arbitrary: A K) (auto simp: Let_def)

lemma natToString_nonempty: "natToString n \<noteq> []"
  by (subst natToString.simps) auto



section \<open>The archive transaction\<close>

text \<open>
  The files after \<^verbatim>\<open>writeShowsFile\<close>, when the target exists and either nothing fails or
  no \<^verbatim>\<open>.backup\<close> file was left behind by an earlier run: the target holds the new document
  if nothing failed and its old content otherwise, and the two other files are gone.
\<close>

lemma writeShowsFile_files:
  assumes "fs p = Some c" and "flt = NoFault \<or> fs (p @ ''.backup'') = None"
  shows "fst (writeShowsFile flt p data fs) =
           (fs(p \<mapsto> (if flt = NoFault then Document data else c)))
             (p @ ''.tmp'' := None, p @ ''.backup'' := None)"
  using assms
  by (cases flt) (auto simp: writeShowsFile_def tryWrite_def Let_def fun_eq_iff)

lemma writeShowsFile_outcome:
  assumes "fs p = Some c"
  shows "snd (writeShowsFile flt p data fs) =
           (case flt of NoFault \<Rightarrow> Fulfilled
                      | FailReadBack \<Rightarrow> Rejected SyntaxError
                      | _ \<Rightarrow> Rejected IOError)"
  using assms
  by (cases flt) (auto simp: writeShowsFile_def tryWrite_def Let_def)

text \<open>\<^verbatim>\<open>archiveShows\<close> on a file that holds a document, with the loop as two filters.\<close>

lemma archiveShows_unfold:
  assumes "fs p = Some (Document d)"
  shows "archiveShows z now flt site p dir dryRun fs =
     (let toArchive = filter (archivable z now) (upcoming d);
          toKeep = filter (\<lambda>sh. \<not> archivable z now sh) (upcoming d);
          result0 =
            \<lparr>siteName = site, filePath = p,
             originalUpcoming = length (upcoming d), originalPast = length (past d),
             archived = length toArchive, remaining = length toKeep,
             totalPast = length (past d) + length toArchive,
             archivedShows = map (archivedShowOf z now) toArchive,
             errors = [], warnings = []\<rparr>;
          result = result0\<lparr>warnings := performSanityChecks result0\<rparr>
      in if \<not> dryRun \<and> toArchive \<noteq> [] then
           Inr (result,
                fst (writeShowsFile flt p
                       \<lparr>upcoming = toKeep, past = rev toArchive @ past d,
                        settings = settings d\<rparr> fs))
         else Inr (result, fs))"
  using assms
  by (simp add: archiveShows_def partitionShows_filter Let_def split_beta)

text \<open>On a file that holds a document \<^verbatim>\<open>archiveShows\<close> returns, whatever step of the write fails.\<close>

lemma archiveShows_returns:
  assumes "fs p = Some (Document d)"
  shows "\<exists>r fs'. archiveShows z now flt site p dir dryRun fs = Inr (r, fs')"
  by (simp add: archiveShows_unfold [where fs=fs and p=p, OF assms] Let_def)

lemma doc3_archivable:
  "filter (archivable utcZone refDec6) (upcoming doc3) = [mkShow ''Dec 4, 2025'' ''Paradiso'']"
  by code_simp

lemma doc3_kept:
  "filter (\<lambda>sh. \<not> archivable utcZone refDec6 sh) (upcoming doc3)
     = [mkShow ''Dec 6, 2025'' ''Melkweg'', mkShow ''Dec 11, 2025'' ''Vera'']"
  by code_simp

lemma fs3_target: "fs3 ''shows.json'' = Some (Document doc3)"
  by (simp add: fs3_def)

text \<open>
  Conservation when the write succeeds, or fails with no \<^verbatim>\<open>.backup\<close> file left behind by
  an earlier run: the document in the target file after an apply-mode run has the same
  number of shows in \<open>upcoming\<close> and \<open>past\<close> together, and the same shows as a multiset;
  the counts of the result add up; when nothing failed, the new \<open>upcoming\<close> has the
  remaining shows and the new \<open>past\<close> the archived ones and the old ones.
\<close>

lemma conserved_without_stale_backup:
  assumes "fs p = Some (Document d)"
    and "flt = NoFault \<or> fs (p @ ''.backup'') = None"
    and "archiveShows z now flt site p dir False fs = Inr (r, fs')"
  shows "\<exists>d'. fs' p = Some (Document d')
           \<and> length (upcoming d') + length (past d') = length (upcoming d) + length (past d)
           \<and> mset (upcoming d') + mset (past d') = mset (upcoming d) + mset (past d)
           \<and> archived r + remaining r = originalUpcoming r
           \<and> totalPast r = originalPast r + archived r
           \<and> (flt = NoFault \<longrightarrow>
                 upcoming d' = filter (\<lambda>sh. \<not> archivable z now sh) (upcoming d)
                 \<and> past d' = rev (filter (archivable z now) (upcoming d)) @ past d
                 \<and> length (upcoming d') = remaining r \<and> length (past d') = totalPast r)"
proof (cases "filter (archivable z now) (upcoming d) = []")
  case True
  with assms(1,3) have "fs' = fs" and "archived r = 0" "remaining r = length (upcoming d)"
    "originalUpcoming r = length (upcoming d)" "totalPast r = length (past d)"
    "originalPast r = length (past d)"
    by (auto simp: archiveShows_unfold [where fs=fs and p=p, OF assms(1)] Let_def
          filter_empty_conv)
  moreover from True have "filter (\<lambda>sh. \<not> archivable z now sh) (upcoming d) = upcoming d"
    by (simp add: filter_empty_conv)
  ultimately show ?thesis using assms(1) True by auto
next
  case False
  let ?A = "filter (archivable z now) (upcoming d)"
  let ?K = "filter (\<lambda>sh. \<not> archivable z now sh) (upcoming d)"
  let ?new = "\<lparr>upcoming = ?K, past = rev ?A @ past d, settings = settings d\<rparr>"
  from False assms(1,3) have fs': "fs' = fst (writeShowsFile flt p ?new fs)"
    and r: "archived r = length ?A" "remaining r = length ?K"
      "originalUpcoming r = length (upcoming d)"
      "totalPast r = length (past d) + length ?A" "originalPast r = length (past d)"
    by (auto simp: archiveShows_unfold [where fs=fs and p=p, OF assms(1)] Let_def)
  have len: "length ?A + length ?K = length (upcoming d)"
    by (rule sum_length_filter_compl)
  have ms: "mset ?K + mset ?A = mset (upcoming d)"
    by (simp add: union_commute)
  have tgt: "fs' p = Some (if flt = NoFault then Document ?new else Document d)"
    by (simp add: fs' writeShowsFile_files [where fs=fs and p=p, OF assms(1,2)])
  have "mset ?K + (mset ?A + mset (past d)) = mset (upcoming d) + mset (past d)"
    using ms by (simp flip: add.assoc)
  then show ?thesis
    using tgt len r by (cases "flt = NoFault") auto
qed

lemma conserved_without_stale_backup_example:
  "\<exists>r fs' d'.
      archiveShows utcZone refDec6 NoFault ''site'' ''shows.json'' ''backups'' False fs3
        = Inr (r, fs')
      \<and> fs' ''shows.json'' = Some (Document d')
      \<and> length (upcoming d') + length (past d') = 4
      \<and> archived r + remaining r = 3"
proof -
  obtain r fs' where run:
    "archiveShows utcZone refDec6 NoFault ''site'' ''shows.json'' ''backups'' False fs3
       = Inr (r, fs')"
    using archiveShows_returns [where fs=fs3 and p="''shows.json''", OF fs3_target] by blast
  from conserved_without_stale_backup [where fs=fs3 and p="''shows.json''", OF fs3_target _ run]
  obtain d' where
    "fs' ''shows.json'' = Some (Document d')"
    "length (upcoming d') + length (past d') = length (upcoming doc3) + length (past doc3)"
    "archived r + remaining r = originalUpcoming r"
    by auto
  moreover have "length (upcoming doc3) + length (past doc3) = 4"
    by (simp add: doc3_def)
  moreover have "originalUpcoming r = 3"
    using run
    by (simp add: archiveShows_unfold [where fs=fs3 and p="''shows.json''", OF fs3_target]
          Let_def doc3_archivable doc3_kept)
       (auto simp: doc3_def)
  ultimately show ?thesis using run by auto
qed

text \<open>
  C4. When at least one show is archived and the write succeeds, the target file holds
  the document whose \<open>upcoming\<close> is the shows that are kept, in their order in the old
  \<open>upcoming\<close>, and whose \<open>past\<close> is the archived shows, taken in their order in the old
  \<open>upcoming\<close> and reversed, followed by the old \<open>past\<close>. The settings are the old ones.
\<close>

theorem archive_order_preserved:
  assumes "fs p = Some (Document d)"
    and "fst (partitionShows z now (upcoming d) [] []) \<noteq> []"
    and "archiveShows z now NoFault site p dir False fs = Inr (r, fs')"
  shows "fst (partitionShows z now (upcoming d) [] []) = filter (archivable z now) (upcoming d)
         \<and> snd (partitionShows z now (upcoming d) [] [])
             = filter (\<lambda>sh. \<not> archivable z now sh) (upcoming d)
         \<and> fs' p = Some (Document
              \<lparr>upcoming = filter (\<lambda>sh. \<not> archivable z now sh) (upcoming d),
               past = rev (filter (archivable z now) (upcoming d)) @ past d,
               settings = settings d\<rparr>)"
  using assms(2,3)
  by (auto simp: partitionShows_filter Let_def
        archiveShows_unfold [where fs=fs and p=p, OF assms(1)]
        writeShowsFile_files [where fs=fs and p=p, OF assms(1)])

theorem archive_order_preserved_witness:
  "\<exists>r fs'.
      archiveShows utcZone refDec6 NoFault ''site'' ''shows.json'' ''backups'' False fs3
        = Inr (r, fs')
      \<and> fs' ''shows.json'' = Some (Document
           \<lparr>upcoming = [mkShow ''Dec 6, 2025'' ''Melkweg'', mkShow ''Dec 11, 2025'' ''Vera''],
            past = [mkShow ''Dec 4, 2025'' ''Paradiso'', mkShow ''Nov 1, 2025'' ''Doornroosje''],
            settings = defaultSettings\<rparr>)"
proof -
  have ne: "fst (partitionShows utcZone refDec6 (upcoming doc3) [] []) \<noteq> []"
    by (simp add: partitionShows_filter doc3_archivable)
  obtain r fs' where run:
    "archiveShows utcZone refDec6 NoFault ''site'' ''shows.json'' ''backups'' False fs3
       = Inr (r, fs')"
    using archiveShows_returns [where fs=fs3 and p="''shows.json''", OF fs3_target] by blast
  from archive_order_preserved [where fs=fs3 and p="''shows.json''", OF fs3_target ne run]
  have "fs' ''shows.json'' = Some (Document
         \<lparr>upcoming = [mkShow ''Dec 6, 2025'' ''Melkweg'', mkShow ''Dec 11, 2025'' ''Vera''],
          past = [mkShow ''Dec 4, 2025'' ''Paradiso'', mkShow ''Nov 1, 2025'' ''Doornroosje''],
          settings = defaultSettings\<rparr>)"
    by (simp add: doc3_archivable doc3_kept) (simp add: doc3_def)
  with run show ?thesis by blast
qed

text \<open>The decision looks at the reference date only through its day.\<close>

lemma shouldArchiveShow_same_day:
  assumes "setHours0 z now2 = setHours0 z now"
  shows "shouldArchiveShow z s now2 = shouldArchiveShow z s now"
proof (cases "success (parseShowDate z s)")
  case True
  then obtain t where t: "DateParseResult.date (parseShowDate z s) = Some t"
    using parse_success_date by blast
  show ?thesis
    by (simp add: shouldArchiveShow_success [OF True t] assms)
next
  case False
  then show ?thesis by (simp add: shouldArchiveShow_failure)
qed

text \<open>
  C5. When no show of \<open>upcoming\<close> is to be archived, an apply-mode run does not call
  \<^verbatim>\<open>writeShowsFile\<close>: the files are unchanged, whatever step of a write would fail, and
  the result reports no archived show. After an apply-mode run whose write succeeded, an
  apply-mode run at an instant of the same day changes no file and reports no archived show.
\<close>

theorem noop_when_nothing_to_archive:
  assumes "fs p = Some (Document d)"
  shows "(fst (partitionShows z now (upcoming d) [] []) = [] \<longrightarrow>
            (\<exists>r. archiveShows z now flt site p dir False fs = Inr (r, fs)
                  \<and> archived r = 0 \<and> remaining r = length (upcoming d)))
         \<and> (archiveShows z now NoFault site p dir False fs = Inr (r1, fs1)
              \<and> setHours0 z now2 = setHours0 z now \<longrightarrow>
              (\<exists>r2. archiveShows z now2 flt site p dir False fs1 = Inr (r2, fs1)
                    \<and> archived r2 = 0))"
proof (intro conjI impI)
  assume "fst (partitionShows z now (upcoming d) [] []) = []"
  then show "\<exists>r. archiveShows z now flt site p dir False fs = Inr (r, fs)
                  \<and> archived r = 0 \<and> remaining r = length (upcoming d)"
    by (auto simp: partitionShows_filter Let_def filter_empty_conv
          archiveShows_unfold [where fs=fs and p=p, OF assms])
next
  assume h: "archiveShows z now NoFault site p dir False fs = Inr (r1, fs1)
               \<and> setHours0 z now2 = setHours0 z now"
  then have run: "archiveShows z now NoFault site p dir False fs = Inr (r1, fs1)"
    and day: "setHours0 z now2 = setHours0 z now"
    by simp_all
  let ?A = "filter (archivable z now) (upcoming d)"
  let ?K = "filter (\<lambda>sh. \<not> archivable z now sh) (upcoming d)"
  let ?new = "\<lparr>upcoming = ?K, past = rev ?A @ past d, settings = settings d\<rparr>"
  have same: "shouldArchiveShow z s now2 = shouldArchiveShow z s now" for s
    using day by (rule shouldArchiveShow_same_day)
  have "\<exists>d1. fs1 p = Some (Document d1) \<and> filter (archivable z now) (upcoming d1) = []"
  proof (cases "?A = []")
    case True
    with run have "fs1 = fs"
      by (simp add: archiveShows_unfold [where fs=fs and p=p, OF assms] Let_def)
    with True assms show ?thesis by simp
  next
    case False
    with run have "fs1 = fst (writeShowsFile NoFault p ?new fs)"
      by (simp add: archiveShows_unfold [where fs=fs and p=p, OF assms] Let_def)
    then have "fs1 p = Some (Document ?new)"
      by (simp add: writeShowsFile_files [where fs=fs and p=p, OF assms])
    moreover have "filter (archivable z now) ?K = []"
      by (simp add: filter_empty_conv)
    ultimately show ?thesis by simp
  qed
  then obtain d1 where d1: "fs1 p = Some (Document d1)"
    and e: "filter (archivable z now) (upcoming d1) = []"
    by blast
  show "\<exists>r2. archiveShows z now2 flt site p dir False fs1 = Inr (r2, fs1) \<and> archived r2 = 0"
    using e by (simp add: archiveShows_unfold [where fs=fs1 and p=p, OF d1] Let_def same)
qed

theorem noop_when_nothing_to_archive_witness:
  "(\<exists>r. archiveShows utcZone refDec1 FailRename ''site'' ''shows.json'' ''backups'' False fs3
           = Inr (r, fs3)
         \<and> archived r = 0 \<and> remaining r = 3)
   \<and> (\<exists>r1 fs1 r2.
         archiveShows utcZone refDec6 NoFault ''site'' ''shows.json'' ''backups'' False fs3
           = Inr (r1, fs1)
         \<and> archived r1 = 1
         \<and> archiveShows utcZone (refDec6 + 3600000) FailRename ''site'' ''shows.json''
              ''backups'' False fs1
             = Inr (r2, fs1)
         \<and> archived r2 = 0)"
proof -
  have none: "fst (partitionShows utcZone refDec1 (upcoming doc3) [] []) = []"
    by code_simp
  have day: "setHours0 utcZone (refDec6 + 3600000) = setHours0 utcZone refDec6"
    by code_simp
  obtain r1 fs1 where run:
    "archiveShows utcZone refDec6 NoFault ''site'' ''shows.json'' ''backups'' False fs3
       = Inr (r1, fs1)"
    using archiveShows_returns [where fs=fs3 and p="''shows.json''", OF fs3_target] by blast
  have one: "archived r1 = 1"
    using run
    by (auto simp: archiveShows_unfold [where fs=fs3 and p="''shows.json''", OF fs3_target]
          Let_def doc3_archivable)
  note inst = noop_when_nothing_to_archive [where fs=fs3 and p="''shows.json''" and z=utcZone
      and flt=FailRename and site="''site''" and dir="''backups''", OF fs3_target]
  have len: "length (upcoming doc3) = 3"
    by (simp add: doc3_def)
  from inst [where now=refDec1] none
  have "\<exists>r. archiveShows utcZone refDec1 FailRename ''site'' ''shows.json'' ''backups''
                False fs3 = Inr (r, fs3)
             \<and> archived r = 0 \<and> remaining r = length (upcoming doc3)"
    by blast
  then have a: "\<exists>r. archiveShows utcZone refDec1 FailRename ''site'' ''shows.json''
                  ''backups'' False fs3 = Inr (r, fs3)
               \<and> archived r = 0 \<and> remaining r = 3"
    by (simp only: len)
  from inst [where now=refDec6 and ?r1.0=r1 and ?fs1.0=fs1 and ?now2.0="refDec6 + 3600000"]
    run day
  have b: "\<exists>r2. archiveShows utcZone (refDec6 + 3600000) FailRename ''site'' ''shows.json''
                   ''backups'' False fs1 = Inr (r2, fs1)
                \<and> archived r2 = 0"
    by blast
  from a b run one show ?thesis by blast
qed

text \<open>
  The frame when the write succeeds, or fails with no \<^verbatim>\<open>.backup\<close> file left behind by an
  earlier run: in either mode the document in the target file after a run has the settings
  it had before, and its shows are the shows it had before, each with all its fields, the
  unknown ones among them; a dry run changes no file.
\<close>

lemma untouched_without_stale_backup:
  assumes "fs p = Some (Document d)"
    and "flt = NoFault \<or> fs (p @ ''.backup'') = None"
    and "archiveShows z now flt site p dir dryRun fs = Inr (r, fs')"
  shows "\<exists>d'. fs' p = Some (Document d')
           \<and> settings d' = settings d
           \<and> set (upcoming d') \<union> set (past d') = set (upcoming d) \<union> set (past d)
           \<and> (dryRun \<longrightarrow> fs' = fs)"
proof (cases "\<not> dryRun \<and> filter (archivable z now) (upcoming d) \<noteq> []")
  case False
  with assms(3) have "fs' = fs"
    by (auto simp: archiveShows_unfold [where fs=fs and p=p, OF assms(1)] Let_def)
  with assms(1) show ?thesis by simp
next
  case True
  let ?A = "filter (archivable z now) (upcoming d)"
  let ?K = "filter (\<lambda>sh. \<not> archivable z now sh) (upcoming d)"
  let ?new = "\<lparr>upcoming = ?K, past = rev ?A @ past d, settings = settings d\<rparr>"
  from True assms(3) have "fs' = fst (writeShowsFile flt p ?new fs)"
    by (auto simp: archiveShows_unfold [where fs=fs and p=p, OF assms(1)] Let_def)
  then have tgt: "fs' p = Some (if flt = NoFault then Document ?new else Document d)"
    by (simp add: writeShowsFile_files [where fs=fs and p=p, OF assms(1,2)])
  have "set ?K \<union> set (rev ?A @ past d) = set (upcoming d) \<union> set (past d)"
    by auto
  then show ?thesis
    using tgt True by (cases "flt = NoFault") auto
qed

lemma untouched_without_stale_backup_example:
  "\<exists>r fs' d'.
      archiveShows utcZone refDec6 NoFault ''site'' ''shows.json'' ''backups'' False fs3
        = Inr (r, fs')
      \<and> fs' ''shows.json'' = Some (Document d')
      \<and> settings d' = defaultSettings
      \<and> set (upcoming d') \<union> set (past d')
          = {mkShow ''Dec 4, 2025'' ''Paradiso'', mkShow ''Dec 6, 2025'' ''Melkweg'',
             mkShow ''Dec 11, 2025'' ''Vera'', mkShow ''Nov 1, 2025'' ''Doornroosje''}"
proof -
  obtain r fs' where run:
    "archiveShows utcZone refDec6 NoFault ''site'' ''shows.json'' ''backups'' False fs3
       = Inr (r, fs')"
    using archiveShows_returns [where fs=fs3 and p="''shows.json''", OF fs3_target] by blast
  from untouched_without_stale_backup [where fs=fs3 and p="''shows.json''",
      OF fs3_target _ run]
  obtain d' where d': "fs' ''shows.json'' = Some (Document d')"
    "settings d' = settings doc3"
    "set (upcoming d') \<union> set (past d') = set (upcoming doc3) \<union> set (past doc3)"
    by auto
  have "settings doc3 = defaultSettings"
    by (simp add: doc3_def)
  moreover have "set (upcoming doc3) \<union> set (past doc3)
          = {mkShow ''Dec 4, 2025'' ''Paradiso'', mkShow ''Dec 6, 2025'' ''Melkweg'',
             mkShow ''Dec 11, 2025'' ''Vera'', mkShow ''Nov 1, 2025'' ''Doornroosje''}"
    by (auto simp: doc3_def)
  ultimately show ?thesis using run d' by auto
qed

text \<open>
  C8. The warnings do not stop the write. When more than ten shows are to be archived,
  the result carries the warning that so many shows would be archived, and, the write
  succeeding, an apply-mode run archives all of them.
\<close>

theorem too_many_warning_does_not_block:
  assumes "fs p = Some (Document d)"
    and "length (filter (archivable z now) (upcoming d)) > 10"
    and "archiveShows z now NoFault site p dir False fs = Inr (r, fs')"
  shows "warnings r = performSanityChecks r
         \<and> TooMany (length (filter (archivable z now) (upcoming d))) \<in> set (warnings r)
         \<and> archived r = length (filter (archivable z now) (upcoming d))
         \<and> fs' p = Some (Document
              \<lparr>upcoming = filter (\<lambda>sh. \<not> archivable z now sh) (upcoming d),
               past = rev (filter (archivable z now) (upcoming d)) @ past d,
               settings = settings d\<rparr>)"
proof -
  let ?A = "filter (archivable z now) (upcoming d)"
  from assms(2) have ne: "?A \<noteq> []" by auto
  from assms(2) have "performSanityChecks r = warnings r
      \<and> TooMany (length ?A) \<in> set (warnings r) \<and> archived r = length ?A"
    using assms(3) ne
    by (auto simp: archiveShows_unfold [where fs=fs and p=p, OF assms(1)] Let_def
          performSanityChecks_def)
  moreover have "fs' p = Some (Document
              \<lparr>upcoming = filter (\<lambda>sh. \<not> archivable z now sh) (upcoming d),
               past = rev ?A @ past d, settings = settings d\<rparr>)"
    using assms(3) ne
    by (auto simp: archiveShows_unfold [where fs=fs and p=p, OF assms(1)] Let_def
          writeShowsFile_files [where fs=fs and p=p, OF assms(1)])
  ultimately show ?thesis by simp
qed

lemma doc15_archivable:
  "length (filter (archivable utcZone refDec6) (upcoming doc15)) = 12"
  by code_simp

theorem too_many_warning_does_not_block_witness:
  "\<exists>r fs' d'.
      archiveShows utcZone refDec6 NoFault ''site'' ''shows.json'' ''backups'' False fs15
        = Inr (r, fs')
      \<and> length (upcoming doc15) = 15
      \<and> TooMany 12 \<in> set (warnings r)
      \<and> archived r = 12
      \<and> fs' ''shows.json'' = Some (Document d')
      \<and> length (upcoming d') = 3 \<and> length (past d') = 12"
proof -
  have a: "fs15 ''shows.json'' = Some (Document doc15)"
    by (simp add: fs15_def)
  have l: "length (upcoming doc15) = 15"
    by (simp add: doc15_def)
  have "length (filter (archivable utcZone refDec6) (upcoming doc15))
          + length (filter (\<lambda>sh. \<not> archivable utcZone refDec6 sh) (upcoming doc15))
        = length (upcoming doc15)"
    by (rule sum_length_filter_compl)
  then have k:
    "length (filter (\<lambda>sh. \<not> archivable utcZone refDec6 sh) (upcoming doc15)) = 3"
    by (simp only: doc15_archivable l)
  have g: "length (filter (archivable utcZone refDec6) (upcoming doc15)) > 10"
    by (simp add: doc15_archivable)
  have p0: "past doc15 = []"
    by (simp add: doc15_def)
  obtain r fs' where run:
    "archiveShows utcZone refDec6 NoFault ''site'' ''shows.json'' ''backups'' False fs15
       = Inr (r, fs')"
    using archiveShows_returns [where fs=fs15 and p="''shows.json''", OF a] by blast
  note inst =
    too_many_warning_does_not_block [where fs=fs15 and p="''shows.json''", OF a g run]
  from inst have "TooMany (length (filter (archivable utcZone refDec6) (upcoming doc15)))
                    \<in> set (warnings r)"
    by blast
  then have w: "TooMany 12 \<in> set (warnings r)"
    by (simp only: doc15_archivable)
  from inst have "archived r = length (filter (archivable utcZone refDec6) (upcoming doc15))"
    by blast
  then have n: "archived r = 12"
    by (simp only: doc15_archivable)
  from inst have "fs' ''shows.json'' = Some (Document
              \<lparr>upcoming = filter (\<lambda>sh. \<not> archivable utcZone refDec6 sh) (upcoming doc15),
               past = rev (filter (archivable utcZone refDec6) (upcoming doc15)) @ past doc15,
               settings = settings doc15\<rparr>)"
    by blast
  then have "\<exists>d'. fs' ''shows.json'' = Some (Document d')
          \<and> length (upcoming d') = 3 \<and> length (past d') = 12"
    by (simp add: doc15_archivable k p0)
  with run l w n show ?thesis by blast
qed

lemma filter_as_zip:
  "filter (\<lambda>x. P (f x)) xs = map fst (filter snd (zip xs (map P (map f xs))))"
  by (induction xs) auto

lemma filter_not_as_zip:
  "filter (\<lambda>x. \<not> P (f x)) xs
     = map fst (filter (\<lambda>q. \<not> snd q) (zip xs (map P (map f xs))))"
  by (induction xs) auto

text \<open>
  C10. The decision for a show is computed from its date string and the reference date
  alone. For two lists of shows with the same date strings in the same order, the
  decisions are the same show by show, and the loop of \<^verbatim>\<open>archiveShows\<close> archives the
  same positions and keeps the same positions in both: the positions flagged by the
  decisions on the date strings.
\<close>

theorem decision_depends_on_date_only:
  assumes "map Show.date us = map Show.date vs"
  shows "map (\<lambda>sh. shouldArchiveShow z (Show.date sh) ref) us
           = map (\<lambda>sh. shouldArchiveShow z (Show.date sh) ref) vs
         \<and> partitionShows z ref us [] [] =
             (map fst (filter snd (zip us
                (map (\<lambda>s. shouldArchive (shouldArchiveShow z s ref)) (map Show.date us)))),
              map fst (filter (\<lambda>q. \<not> snd q) (zip us
                (map (\<lambda>s. shouldArchive (shouldArchiveShow z s ref)) (map Show.date us)))))
         \<and> partitionShows z ref vs [] [] =
             (map fst (filter snd (zip vs
                (map (\<lambda>s. shouldArchive (shouldArchiveShow z s ref)) (map Show.date us)))),
              map fst (filter (\<lambda>q. \<not> snd q) (zip vs
                (map (\<lambda>s. shouldArchive (shouldArchiveShow z s ref)) (map Show.date us)))))"
proof -
  have "map (\<lambda>s. shouldArchiveShow z s ref) (map Show.date us)
          = map (\<lambda>s. shouldArchiveShow z s ref) (map Show.date vs)"
    using assms by simp
  then have m: "map (\<lambda>sh. shouldArchiveShow z (Show.date sh) ref) us
           = map (\<lambda>sh. shouldArchiveShow z (Show.date sh) ref) vs"
    by (simp add: comp_def)
  have pu: "partitionShows z ref xs [] [] =
             (map fst (filter snd (zip xs
                (map (\<lambda>s. shouldArchive (shouldArchiveShow z s ref)) (map Show.date xs)))),
              map fst (filter (\<lambda>q. \<not> snd q) (zip xs
                (map (\<lambda>s. shouldArchive (shouldArchiveShow z s ref)) (map Show.date xs)))))"
    for xs :: "'c Show list"
    unfolding partitionShows_filter
    using filter_as_zip [of "\<lambda>s. shouldArchive (shouldArchiveShow z s ref)" Show.date xs]
      filter_not_as_zip [of "\<lambda>s. shouldArchive (shouldArchiveShow z s ref)" Show.date xs]
    by simp
  show ?thesis
    using m pu [of us] pu [of vs] assms by simp
qed

theorem decision_depends_on_date_only_witness:
  "map Show.date [mkShow ''Dec 4, 2025'' ''Paradiso'', mkShow ''Dec 6, 2025'' ''Melkweg'']
     = map Show.date [otherShow ''Dec 4, 2025'', otherShow ''Dec 6, 2025'']
   \<and> partitionShows utcZone refDec6
         [mkShow ''Dec 4, 2025'' ''Paradiso'', mkShow ''Dec 6, 2025'' ''Melkweg''] [] []
       = ([mkShow ''Dec 4, 2025'' ''Paradiso''], [mkShow ''Dec 6, 2025'' ''Melkweg''])
   \<and> partitionShows utcZone refDec6 [otherShow ''Dec 4, 2025'', otherShow ''Dec 6, 2025''] [] []
       = ([otherShow ''Dec 4, 2025''], [otherShow ''Dec 6, 2025''])"
proof -
  let ?us = "[mkShow ''Dec 4, 2025'' ''Paradiso'', mkShow ''Dec 6, 2025'' ''Melkweg'']"
  let ?vs = "[otherShow ''Dec 4, 2025'', otherShow ''Dec 6, 2025'']"
  have same: "map Show.date ?us = map Show.date ?vs"
    by (simp add: mkShow_def otherShow_def)
  have flags: "map (\<lambda>s. shouldArchive (shouldArchiveShow utcZone s refDec6)) (map Show.date ?us)
                 = [True, False]"
    by code_simp
  from decision_depends_on_date_only [OF same, of utcZone refDec6]
  have "partitionShows utcZone refDec6 ?us [] []
          = (map fst (filter snd (zip ?us [True, False])),
             map fst (filter (\<lambda>q. \<not> snd q) (zip ?us [True, False])))"
    and "partitionShows utcZone refDec6 ?vs [] []
          = (map fst (filter snd (zip ?vs [True, False])),
             map fst (filter (\<lambda>q. \<not> snd q) (zip ?vs [True, False])))"
    by (simp_all only: flags)
  then show ?thesis
    using same by simp
qed

text \<open>
  When a step of the write fails and no \<^verbatim>\<open>.backup\<close> file was left behind by an earlier
  run, the \<^verbatim>\<open>catch\<close> block leaves the target with the content it had, removes the
  temporary file and the \<^verbatim>\<open>.backup\<close> file, and the promise is rejected.
\<close>

lemma write_failure_rolls_back:
  assumes "fs p = Some c" and "fs (p @ ''.backup'') = None" and "flt \<noteq> NoFault"
  shows "fst (writeShowsFile flt p data fs) = fs(p @ ''.tmp'' := None)"
    and "fst (writeShowsFile flt p data fs) p = Some c"
    and "fst (writeShowsFile flt p data fs) (p @ ''.tmp'') = None"
    and "fst (writeShowsFile flt p data fs) (p @ ''.backup'') = None"
    and "\<exists>e. snd (writeShowsFile flt p data fs) = Rejected e"
proof -
  have eq: "fst (writeShowsFile flt p data fs) =
              (fs(p \<mapsto> c))(p @ ''.tmp'' := None, p @ ''.backup'' := None)"
    using assms by (simp add: writeShowsFile_files [where fs=fs and p=p])
  show "fst (writeShowsFile flt p data fs) = fs(p @ ''.tmp'' := None)"
    using assms by (auto simp: eq fun_eq_iff)
  show "fst (writeShowsFile flt p data fs) p = Some c"
    by (simp add: eq)
  show "fst (writeShowsFile flt p data fs) (p @ ''.tmp'') = None"
    by (simp add: eq)
  show "fst (writeShowsFile flt p data fs) (p @ ''.backup'') = None"
    by (simp add: eq)
  show "\<exists>e. snd (writeShowsFile flt p data fs) = Rejected e"
    using assms(3) by (cases flt) (simp_all add: writeShowsFile_outcome [where fs=fs, OF assms(1)])
qed

text \<open>
  An apply-mode run on \<open>fsStale\<close> in which writing the temporary file fails. Nothing
  has been copied to the \<^verbatim>\<open>.backup\<close> path by this call, but the \<^verbatim>\<open>catch\<close> block finds the
  file of the earlier run there and copies it over the target.
\<close>

lemma fsStale_target: "fsStale ''shows.json'' = Some (Document doc3)"
  by (simp add: fsStale_def)

lemma stale_backup_restored:
  "fst (writeShowsFile (FailWriteTmp False) ''shows.json'' data fsStale) ''shows.json''
     = Some (Document docStale)"
  "fst (writeShowsFile (FailWriteTmp False) ''shows.json'' data fsStale) ''shows.json.backup''
     = None"
  by (simp_all add: writeShowsFile_def tryWrite_def fsStale_def)

lemma stale_run:
  "archiveShows utcZone refDec6 (FailWriteTmp False) ''site'' ''shows.json'' ''backups'' False
     fsStale
   = Inr (fst (projr (archiveShows utcZone refDec6 NoFault ''site'' ''shows.json''
                        ''backups'' True fsStale)),
          fst (writeShowsFile (FailWriteTmp False) ''shows.json'' doc3Archived fsStale))"
proof -
  have past3: "past doc3 = [mkShow ''Nov 1, 2025'' ''Doornroosje'']"
    "settings doc3 = defaultSettings"
    by (simp_all add: doc3_def)
  show ?thesis
    by (simp add: archiveShows_unfold [where fs=fsStale and p="''shows.json''", OF fsStale_target]
          Let_def doc3_archivable doc3_kept past3 doc3Archived_def)
qed

lemma stale_run_archived:
  "archived (fst (projr (archiveShows utcZone refDec6 NoFault ''site'' ''shows.json''
                           ''backups'' True fsStale))) = 1"
  by (simp add: archiveShows_unfold [where fs=fsStale and p="''shows.json''", OF fsStale_target]
        Let_def doc3_archivable)

text \<open>
  C2. An apply-mode run is meant to conserve the shows. On \<open>fsStale\<close>, with the write of
  the temporary file failing, the run reports one archived show, and the target, which held
  the four shows of \<open>doc3\<close>, holds the single show of the stale document afterwards.
\<close>

theorem stale_backup_destroys_shows:
  "length (upcoming doc3) + length (past doc3) = 4
   \<and> (case archiveShows utcZone refDec6 (FailWriteTmp False) ''site'' ''shows.json''
              ''backups'' False fsStale of
         Inl e \<Rightarrow> False
       | Inr (r, fs') \<Rightarrow>
           archived r = 1
           \<and> fs' ''shows.json'' = Some (Document docStale)
           \<and> length (upcoming docStale) + length (past docStale) = 1
           \<and> mset (upcoming docStale) + mset (past docStale)
               = {#mkShow ''Nov 1, 2025'' ''Doornroosje''#})"
  by (simp add: stale_run stale_backup_restored stale_run_archived)
     (simp add: doc3_def docStale_def)

text \<open>
  C6. A run is meant to leave the settings and every show record as they were. On
  \<open>fsStale\<close>, with the write of the temporary file failing, the target holds the stale
  document afterwards: its settings are not those of \<open>doc3\<close>, and the show of Dec 6, which
  the run keeps in \<open>upcoming\<close>, is in neither list.
\<close>

theorem stale_backup_replaces_settings:
  "(case archiveShows utcZone refDec6 (FailWriteTmp False) ''site'' ''shows.json''
           ''backups'' False fsStale of
      Inl e \<Rightarrow> False
    | Inr (r, fs') \<Rightarrow>
        fs' ''shows.json'' = Some (Document docStale)
        \<and> settings docStale \<noteq> settings doc3
        \<and> mkShow ''Dec 6, 2025'' ''Melkweg'' \<in> set (upcoming doc3)
        \<and> mkShow ''Dec 6, 2025'' ''Melkweg'' \<notin> set (upcoming docStale) \<union> set (past docStale))"
  by (simp add: stale_run stale_backup_restored)
     (simp add: doc3_def docStale_def defaultSettings_def mkShow_def)

text \<open>
  C7. A failure of the write is meant to surface as an error of the run for that site.
  On \<open>doc3\<close>, with the rename failing, the promise of \<^verbatim>\<open>writeShowsFile\<close> is rejected and the
  target is restored, but \<^verbatim>\<open>archiveShows\<close> throws nothing: it returns its result, with
  one show archived and no error, as after a successful write, while the target still
  holds the old document.
\<close>

theorem write_failure_not_raised:
  "snd (writeShowsFile FailRename ''shows.json'' doc3Archived fs3) = Rejected IOError
   \<and> fst (writeShowsFile FailRename ''shows.json'' doc3Archived fs3) ''shows.json''
       = Some (Document doc3)
   \<and> (case archiveShows utcZone refDec6 FailRename ''site'' ''shows.json'' ''backups'' False fs3 of
         Inl e \<Rightarrow> False
       | Inr (r, fs') \<Rightarrow>
           archived r = 1 \<and> remaining r = 2 \<and> totalPast r = 2
           \<and> ArchiveResult.errors r = [] \<and> warnings r = []
           \<and> r = fst (projr (archiveShows utcZone refDec6 NoFault ''site'' ''shows.json''
                               ''backups'' False fs3))
           \<and> fs' ''shows.json'' = Some (Document doc3))"
proof -
  have b: "fs3 (''shows.json'' @ ''.backup'') = None"
    by (simp add: fs3_def)
  have o: "snd (writeShowsFile FailRename ''shows.json'' doc3Archived fs3) = Rejected IOError"
    by (simp add: writeShowsFile_outcome [where fs=fs3, OF fs3_target])
  have t: "fst (writeShowsFile FailRename ''shows.json'' data fs3) ''shows.json''
             = Some (Document doc3)" for data
    using write_failure_rolls_back(2) [where fs=fs3 and p="''shows.json''", OF fs3_target b]
    by simp
  have past3: "past doc3 = [mkShow ''Nov 1, 2025'' ''Doornroosje'']"
    by (simp add: doc3_def)
  have w: "archivedShowOf utcZone refDec6 (mkShow ''Dec 4, 2025'' ''Paradiso'')
             = \<lparr>ArchivedShow.date = ''Dec 4, 2025'', venue = ''Paradiso'',
                city = ''Amsterdam'', daysAgo = 2\<rparr>"
    by code_simp
  have len: "length (upcoming doc3) = 3"
    by (simp add: doc3_def)
  show ?thesis
    by (simp add: o t archiveShows_unfold [where fs=fs3 and p="''shows.json''", OF fs3_target]
          Let_def doc3_archivable doc3_kept past3 len w performSanityChecks_def)
qed

text \<open>
  C9. \<open>daysAgo\<close> is meant to be the difference in whole days between the reference date and
  the show date, positive for a past show. In Europe/Amsterdam the day 2025-03-30 has 23
  hours. At the reference instant 2025-03-31T10:00:00Z a show of Mar 30, 2025, the day
  before, is archived with \<open>daysAgo = 0\<close>, and the sanity checks of the run warn that
  today's show would be archived. The day 2025-10-26 has 25 hours: at the reference
  instant 2025-10-26T00:00:00Z a show of Oct 27, 2025, the next day, has \<open>daysAgo = -2\<close>.
\<close>

theorem daysAgo_across_dst_transition:
  "shouldArchiveShow europeAmsterdam2025 ''Mar 30, 2025'' 1743415200000 =
     \<lparr>shouldArchive = True, reason = ''Show was 0 day(s) ago'',
      showDate = Some 1743289200000, daysAgo = 0\<rparr>
   \<and> shouldArchiveShow europeAmsterdam2025 ''Oct 27, 2025'' 1761436800000 =
     \<lparr>shouldArchive = False, reason = ''Show is 2 day(s) in the future'',
      showDate = Some 1761519600000, daysAgo = - 2\<rparr>
   \<and> (case archiveShows europeAmsterdam2025 refMar31 NoFault ''site'' ''shows.json''
              ''backups'' True fsMarch of
         Inl e \<Rightarrow> False
       | Inr (r, fs') \<Rightarrow>
           archivedShows r =
             [\<lparr>ArchivedShow.date = ''Mar 30, 2025'', venue = ''Paradiso'',
               city = ''Amsterdam'', daysAgo = 0\<rparr>]
           \<and> warnings r = [TodayArchived ''Mar 30, 2025''])"
proof -
  have a: "shouldArchiveShow europeAmsterdam2025 ''Mar 30, 2025'' 1743415200000 =
     \<lparr>shouldArchive = True, reason = ''Show was 0 day(s) ago'',
      showDate = Some 1743289200000, daysAgo = 0\<rparr>"
    by code_simp
  have b: "shouldArchiveShow europeAmsterdam2025 ''Oct 27, 2025'' 1761436800000 =
     \<lparr>shouldArchive = False, reason = ''Show is 2 day(s) in the future'',
      showDate = Some 1761519600000, daysAgo = - 2\<rparr>"
    by code_simp
  have t: "fsMarch ''shows.json'' = Some (Document docMarch)"
    by (simp add: fsMarch_def)
  have ar: "filter (archivable europeAmsterdam2025 refMar31) (upcoming docMarch)
              = [mkShow ''Mar 30, 2025'' ''Paradiso'']"
    by code_simp
  have kp: "filter (\<lambda>sh. \<not> archivable europeAmsterdam2025 refMar31 sh) (upcoming docMarch)
              = [mkShow ''Apr 5, 2025'' ''Melkweg'']"
    by code_simp
  have w: "archivedShowOf europeAmsterdam2025 refMar31 (mkShow ''Mar 30, 2025'' ''Paradiso'')
             = \<lparr>ArchivedShow.date = ''Mar 30, 2025'', venue = ''Paradiso'',
                city = ''Amsterdam'', daysAgo = 0\<rparr>"
    by code_simp
  have c: "(case archiveShows europeAmsterdam2025 refMar31 NoFault ''site'' ''shows.json''
              ''backups'' True fsMarch of
         Inl e \<Rightarrow> False
       | Inr (r, fs') \<Rightarrow>
           archivedShows r =
             [\<lparr>ArchivedShow.date = ''Mar 30, 2025'', venue = ''Paradiso'',
               city = ''Amsterdam'', daysAgo = 0\<rparr>]
           \<and> warnings r = [TodayArchived ''Mar 30, 2025''])"
    by (simp add: archiveShows_unfold [where fs=fsMarch and p="''shows.json''", OF t]
          Let_def ar kp w performSanityChecks_def)
  from a b c show ?thesis by simp
qed

end
